theory Spec2Isabelle
  imports Main
begin

section \<open>JavaScript values and strings\<close>

text \<open>
  The program is the Drupal behaviour \<open>calendarWithSingleFilter\<close> of
  \<open>fullcalendar/lib/events.js\<close> (the last, most complete variant in the file).

  A JavaScript string is modelled as a \<^typ>\<open>string\<close> whose characters stand for the code
  units U+0000 to U+00FF (Latin-1). On that range \<open>String.prototype.trim\<close> and
  \<open>String.prototype.toLowerCase\<close> are the functions below, and the range is closed under
  both. A category value is a primitive: \<open>undefined\<close>, \<open>null\<close>, a boolean, a number or a
  string. A number is an integer in the safe range, for which \<open>String(n)\<close> is the decimal
  numeral of \<open>n\<close>.
\<close>

datatype jsval = JUndefined | JNull | JBool bool | JNum int | JStr string

text \<open>The white space and line terminators that \<open>trim\<close> strips: TAB, LF, VT, FF, CR, SP, NBSP.\<close>

definition is_space :: "char \<Rightarrow> bool" where
  "is_space c = (let n = (of_char c :: nat) in (9 \<le> n \<and> n \<le> 13) \<or> n = 32 \<or> n = 160)"

text \<open>The regular expression class \<open>\d\<close>: the ASCII digits.\<close>

definition is_digit :: "char \<Rightarrow> bool" where
  "is_digit c = (let n = (of_char c :: nat) in 48 \<le> n \<and> n \<le> 57)"

definition trim :: "string \<Rightarrow> string" where
  "trim s = rev (dropWhile is_space (rev (dropWhile is_space s)))"

text \<open>Lower case of one code unit: A-Z, and the Latin-1 capitals U+00C0-U+00DE but U+00D7.\<close>

definition lower_char :: "char \<Rightarrow> char" where
  "lower_char c =
     (let n = (of_char c :: nat)
      in if (65 \<le> n \<and> n \<le> 90) \<or> (192 \<le> n \<and> n \<le> 222 \<and> n \<noteq> 215)
         then char_of (n + 32) else c)"

definition toLowerCase :: "string \<Rightarrow> string" where
  "toLowerCase s = map lower_char s"

text \<open>\<open>String(n)\<close> for an integer.\<close>

definition digit_char :: "nat \<Rightarrow> char" where
  "digit_char d = char_of (48 + d)"

fun nat_to_dec :: "nat \<Rightarrow> string" where
  "nat_to_dec n = (if n < 10 then [digit_char n] else nat_to_dec (n div 10) @ [digit_char (n mod 10)])"

definition int_to_dec :: "int \<Rightarrow> string" where
  "int_to_dec i = (if i < 0 then CHR ''-'' # nat_to_dec (nat (- i)) else nat_to_dec (nat i))"

fun js_String :: "jsval \<Rightarrow> string" where
  "js_String JUndefined = ''undefined''"
| "js_String JNull = ''null''"
| "js_String (JBool b) = (if b then ''true'' else ''false'')"
| "js_String (JNum i) = int_to_dec i"
| "js_String (JStr s) = s"

text \<open>
  \<open>s.match(/\d+/)\<close>: the leftmost match of a greedy run of digits, \<open>None\<close> for \<open>null\<close>.
  Only the matched text \<open>m[0]\<close> is used.
\<close>

fun match_digits :: "string \<Rightarrow> string option" where
  "match_digits [] = None"
| "match_digits (c # cs) =
     (if is_digit c then Some (c # takeWhile is_digit cs) else match_digits cs)"

section \<open>CategoryNormalizer\<close>

text \<open>
  \<^verbatim>\<open>
  function norm(val) {
    if (val == null) return '';
    const s = String(val).trim().toLowerCase();
    if (s === 'all') return 'all';
    const m = s.match(/\d+/);
    return m ? m[0] : s;
  }
  \<close>
  \<open>val == null\<close> holds of \<open>null\<close> and of \<open>undefined\<close>. A match of \<open>\d+\<close> is never
  empty, so \<open>m\<close> is truthy exactly when there is a match.
\<close>

definition nullish :: "jsval \<Rightarrow> bool" where
  "nullish v = (v = JUndefined \<or> v = JNull)"

definition norm :: "jsval \<Rightarrow> string" where
  "norm val =
     (if nullish val then ''''
      else let s = toLowerCase (trim (js_String val))
           in if s = ''all'' then ''all''
              else (case match_digits s of Some m \<Rightarrow> m | None \<Rightarrow> s))"

section \<open>The page: markup, widget and filter state\<close>

text \<open>
  A toggle control (an element of class \<open>fc-filter-btn\<close> inside the group
  \<open>#filterEventsGroup\<close>): its \<open>data-cat\<close> and \<open>aria-pressed\<close> attributes (\<open>None\<close> when
  the attribute is missing, as \<open>getAttribute\<close> gives \<open>null\<close>), the three classes the code
  toggles, and the marker \<open>data-wired="1"\<close>, which the code sets exactly when it adds its click
  handler to the control.
\<close>

record control =
  data_cat :: "string option"
  active :: bool
  btn_primary :: bool
  btn_outline_primary :: bool
  aria_pressed :: "string option"
  wired :: bool

text \<open>
  An event record. \<open>extendedProps\<close> is \<open>None\<close> when the property is missing or \<open>null\<close>, and
  otherwise an object of which the code reads \<open>category\<close>, \<open>Category\<close> and \<open>type\<close> (a missing
  key reads as \<open>undefined\<close>). \<open>source\<close> is the widget's internal id of the event source the
  event was fetched from (\<open>None\<close> for an event of no source).
\<close>

record props =
  ep_category :: jsval
  ep_Category :: jsval
  ep_type :: jsval

record event =
  extendedProps :: "props option"
  category :: jsval
  className :: jsval
  source :: "nat option"
  display :: string

text \<open>
  An event source of the widget: its internal id (the widget gives every source a fresh
  one), the public \<open>id\<close> and the \<open>url\<close> (\<open>None\<close> for a source that has none).
\<close>

record event_source =
  sourceId :: nat
  publicId :: string
  url :: "string option"

text \<open>
  The widget (\<open>FullCalendar.Calendar\<close>), as far as the code uses it: the attached sources
  (\<open>getEventSources\<close>), the current events (\<open>getEvents\<close>), whether \<open>render\<close> was called, and
  a log of the sources on which \<open>remove()\<close> was called.
\<close>

record calendar =
  eventSources :: "event_source list"
  events :: "event list"
  rendered :: bool
  removed :: "event_source list"

text \<open>
  The state of the page: \<open>window.__fcCalendarInstance\<close> (\<open>None\<close> while unset; the closure
  variable \<open>calendar\<close> is the same object); the number of widgets constructed so far; the
  elements of the document with id \<open>calendar\<close>, each with its mark \<open>once = fc-init\<close>; the
  control group \<open>#filterEventsGroup\<close>, if the document has one; the closure variables
  \<open>activeCategoryRaw\<close>, \<open>activeCategory\<close>, \<open>buttonsWired\<close>; and the number of mutation
  observers registered. The spinner \<open>#loading\<close>, the container's visibility, the tooltips and
  the warning \<open>#script-warning\<close> take no part in filtering and are left out.
\<close>

record page =
  fcCalendarInstance :: "calendar option"
  constructed :: nat
  doc_calendars :: "bool list"
  doc_filterEventsGroup :: "control list option"
  activeCategoryRaw :: string
  activeCategory :: string
  buttonsWired :: bool
  observers :: nat

definition FEED_URL :: string where
  "FEED_URL = ''/event/calendar-feed.json''"

text \<open>\<open>a ?? b\<close> on values, and \<open>a || 'all'\<close> on the result of \<open>getAttribute\<close> or of
  \<open>readDefaultFromMarkup\<close> (a string or \<open>null\<close>): the empty string is falsy.\<close>

definition nullish_or :: "jsval \<Rightarrow> jsval \<Rightarrow> jsval" where
  "nullish_or a b = (if nullish a then b else a)"

definition or_all :: "string option \<Rightarrow> string" where
  "or_all a = (case a of None \<Rightarrow> ''all'' | Some r \<Rightarrow> if r = [] then ''all'' else r)"

section \<open>FilterState and ControlSyncer\<close>

definition getFilterGroup :: "page \<Rightarrow> control list option" where
  "getFilterGroup s = doc_filterEventsGroup s"

text \<open>
  \<^verbatim>\<open>
  function readDefaultFromMarkup() {
    const group = getFilterGroup();
    if (!group) return null;
    const btn = group.querySelector('.fc-filter-btn.active');
    return btn ? (btn.getAttribute('data-cat') || 'all') : 'all';
  }
  \<close>
\<close>

definition readDefaultFromMarkup :: "page \<Rightarrow> string option" where
  "readDefaultFromMarkup s =
     (case getFilterGroup s of
        None \<Rightarrow> None
      | Some grp \<Rightarrow>
          (case find active grp of
             Some btn \<Rightarrow> Some (or_all (data_cat btn))
           | None \<Rightarrow> Some ''all''))"

text \<open>
  \<open>if (fromMarkup) { activeCategoryRaw = fromMarkup; activeCategory = norm(activeCategoryRaw); }\<close>
  as it stands in \<open>wireButtonsIfPresent\<close> and in \<open>eventDataTransform\<close>.
\<close>

definition adoptFromMarkup :: "page \<Rightarrow> page" where
  "adoptFromMarkup s =
     (case readDefaultFromMarkup s of
        None \<Rightarrow> s
      | Some fromMarkup \<Rightarrow>
          if fromMarkup = [] then s
          else s\<lparr>activeCategoryRaw := fromMarkup, activeCategory := norm (JStr fromMarkup)\<rparr>)"

text \<open>The body of the \<open>forEach\<close> of \<open>updateButtonsUI\<close>, and the function on the group's controls.\<close>

definition syncButton :: "string \<Rightarrow> control \<Rightarrow> control" where
  "syncButton activeCat btn =
     (let catRaw = or_all (data_cat btn);
          isOn = (norm (JStr catRaw) = activeCat)
      in btn\<lparr>active := isOn, btn_primary := isOn, btn_outline_primary := \<not> isOn,
              aria_pressed := Some (if isOn then ''true'' else ''false'')\<rparr>)"

primrec updateButtonsUI :: "string \<Rightarrow> control list \<Rightarrow> control list" where
  "updateButtonsUI activeCat [] = []"
| "updateButtonsUI activeCat (btn # buttons) = syncButton activeCat btn # updateButtonsUI activeCat buttons"

section \<open>VisibilityApplier\<close>

text \<open>
  The category \<open>applyFilter\<close> computes for an event:
  \<open>norm((ev.extendedProps && (ev.extendedProps.category ?? ev.extendedProps.Category ??
  ev.extendedProps.type)) ?? '')\<close>, and the one \<open>eventDataTransform\<close> computes for a record:
  \<open>norm((raw.extendedProps && (...)) ?? raw.category ?? raw.className)\<close>.
\<close>

definition extendedCategory :: "event \<Rightarrow> jsval" where
  "extendedCategory ev =
     (case extendedProps ev of
        None \<Rightarrow> JUndefined
      | Some ep \<Rightarrow> nullish_or (nullish_or (ep_category ep) (ep_Category ep)) (ep_type ep))"

definition applyFilter_evCat :: "event \<Rightarrow> string" where
  "applyFilter_evCat ev = norm (nullish_or (extendedCategory ev) (JStr ''''))"

definition transform_evCat :: "event \<Rightarrow> string" where
  "transform_evCat raw =
     norm (nullish_or (nullish_or (extendedCategory raw) (category raw)) (className raw))"

definition showFlag :: "bool \<Rightarrow> string" where
  "showFlag sh = (if sh then ''auto'' else ''none'')"

text \<open>The loop of \<open>applyFilter\<close> over \<open>calendar.getEvents()\<close>, inside one \<open>batchRendering\<close>.\<close>

primrec applyFilter_loop :: "string \<Rightarrow> event list \<Rightarrow> event list" where
  "applyFilter_loop activeCat [] = []"
| "applyFilter_loop activeCat (ev # evs) =
     (let evCat = applyFilter_evCat ev;
          sh = (activeCat = ''all'' \<or> evCat = activeCat)
      in ev\<lparr>display := showFlag sh\<rparr> # applyFilter_loop activeCat evs)"

definition applyFilter :: "page \<Rightarrow> page" where
  "applyFilter s =
     (case fcCalendarInstance s of
        None \<Rightarrow> s
      | Some cal \<Rightarrow>
          s\<lparr>fcCalendarInstance := Some (cal\<lparr>events := applyFilter_loop (activeCategory s) (events cal)\<rparr>)\<rparr>)"

text \<open>
  \<open>eventDataTransform(raw)\<close>: the record it returns, \<open>Object.assign({}, raw, {display: ...})\<close>,
  and the state after it.
\<close>

definition eventDataTransform :: "event \<Rightarrow> page \<Rightarrow> event \<times> page" where
  "eventDataTransform raw s =
     (let s1 = adoptFromMarkup s;
          evCat = transform_evCat raw;
          sh = (activeCategory s1 = ''all'' \<or> evCat = activeCategory s1)
      in (raw\<lparr>display := showFlag sh\<rparr>, s1))"

section \<open>Click handler and wiring\<close>

text \<open>
  A click on the \<open>i\<close>-th control of the group. The handler exists on a wired control only;
  it runs \<open>activeCategoryRaw = btn.getAttribute('data-cat') || 'all'\<close>,
  \<open>activeCategory = norm(activeCategoryRaw)\<close>, \<open>updateButtonsUI(group)\<close>, \<open>applyFilter()\<close>.
\<close>

definition click :: "nat \<Rightarrow> page \<Rightarrow> page" where
  "click i s =
     (case getFilterGroup s of
        None \<Rightarrow> s
      | Some grp \<Rightarrow>
          if i < length grp \<and> wired (grp ! i) then
            let raw = or_all (data_cat (grp ! i));
                s1 = s\<lparr>activeCategoryRaw := raw, activeCategory := norm (JStr raw)\<rparr>;
                s2 = s1\<lparr>doc_filterEventsGroup := Some (updateButtonsUI (activeCategory s1) grp)\<rparr>
            in applyFilter s2
          else s)"

text \<open>
  \<open>wireButtonsIfPresent()\<close>: its result and the state after it. The \<open>forEach\<close> leaves a
  control that carries the marker alone and otherwise sets the marker and adds the handler.
\<close>

definition wireButton :: "control \<Rightarrow> control" where
  "wireButton btn = (if wired btn then btn else btn\<lparr>wired := True\<rparr>)"

definition wireButtonsIfPresent :: "page \<Rightarrow> bool \<times> page" where
  "wireButtonsIfPresent s =
     (case getFilterGroup s of
        None \<Rightarrow> (False, s)
      | Some grp \<Rightarrow>
          let s1 = (if \<not> buttonsWired s then adoptFromMarkup s else s);
              buttons = map wireButton grp;
              s2 = s1\<lparr>doc_filterEventsGroup := Some (updateButtonsUI (activeCategory s1) buttons)\<rparr>
          in (True, s2\<lparr>buttonsWired := True\<rparr>))"

section \<open>SourceGuard\<close>

text \<open>
  \<open>source.remove()\<close> of the widget: the source leaves the widget, and so do the events
  fetched from it. The call is logged.
\<close>

definition remove_source :: "event_source \<Rightarrow> calendar \<Rightarrow> calendar" where
  "remove_source src cal =
     cal\<lparr>eventSources := filter (\<lambda>t. sourceId t \<noteq> sourceId src) (eventSources cal),
         events := filter (\<lambda>ev. source ev \<noteq> Some (sourceId src)) (events cal),
         removed := removed cal @ [src]\<rparr>"

text \<open>The loop \<open>for (let i = 1; i < matching.length; i++) matching[i].remove()\<close>, from index \<open>i\<close>.\<close>

function remove_from :: "nat \<Rightarrow> event_source list \<Rightarrow> calendar \<Rightarrow> calendar" where
  "remove_from i matching cal =
     (if i < length matching then remove_from (i + 1) matching (remove_source (matching ! i) cal)
      else cal)"
  by pat_completeness auto
termination
  by (relation "measure (\<lambda>(i, matching, cal). length matching - i)") auto

declare remove_from.simps [simp del]

definition ensureSingleEventSource_cal :: "calendar \<Rightarrow> calendar" where
  "ensureSingleEventSource_cal cal =
     (let sources = eventSources cal;
          matching = filter (\<lambda>src. url src = Some FEED_URL) sources
      in if length matching > 1 then remove_from 1 matching cal else cal)"

definition ensureSingleEventSource :: "page \<Rightarrow> page" where
  "ensureSingleEventSource s =
     (case fcCalendarInstance s of
        None \<Rightarrow> s
      | Some cal \<Rightarrow> s\<lparr>fcCalendarInstance := Some (ensureSingleEventSource_cal cal)\<rparr>)"

text \<open>The \<open>loading(isLoading)\<close> callback of the widget.\<close>

definition loading :: "bool \<Rightarrow> page \<Rightarrow> page" where
  "loading isLoading s =
     (if \<not> isLoading then applyFilter (ensureSingleEventSource (snd (wireButtonsIfPresent s)))
      else s)"

section \<open>InstanceGuard: attach\<close>

text \<open>
  \<open>once('fc-init', '#calendar', context)\<close> of Drupal: the elements with id \<open>calendar\<close>
  inside the context that do not carry the mark \<open>fc-init\<close> yet, and the marks afterwards
  (every element it returns is marked). \<open>ctx i\<close> says that the \<open>i\<close>-th such element of the
  document lies inside the context.
\<close>

definition once_fc_init :: "(nat \<Rightarrow> bool) \<Rightarrow> bool list \<Rightarrow> nat list \<times> bool list" where
  "once_fc_init ctx els =
     (filter (\<lambda>i. ctx i \<and> \<not> els ! i) [0..<length els],
      map (\<lambda>i. els ! i \<or> ctx i) [0..<length els])"

text \<open>\<open>new FullCalendar.Calendar(el, {...})\<close>: one source, the feed, and no event yet.\<close>

definition new_Calendar :: calendar where
  "new_Calendar =
     \<lparr>eventSources = [\<lparr>sourceId = 0, publicId = ''main-feed'', url = Some FEED_URL\<rparr>],
      events = [], rendered = False, removed = []\<rparr>"

definition render :: "page \<Rightarrow> page" where
  "render s =
     (case fcCalendarInstance s of
        None \<Rightarrow> s
      | Some cal \<Rightarrow> s\<lparr>fcCalendarInstance := Some (cal\<lparr>rendered := True\<rparr>)\<rparr>)"

text \<open>
  \<open>attach(context, settings)\<close>: the value it returns and the page after it. Every
  \<open>return\<close> of the source is a bare \<open>return;\<close> and the function ends without one, so the
  value is \<open>undefined\<close> on every path.
\<close>

definition attach :: "(nat \<Rightarrow> bool) \<Rightarrow> page \<Rightarrow> jsval \<times> page" where
  "attach ctx s =
     (if fcCalendarInstance s \<noteq> None then (JUndefined, s)
      else
        let (calendarEls, marks) = once_fc_init ctx (doc_calendars s);
            s1 = s\<lparr>doc_calendars := marks\<rparr>
        in if length calendarEls = 0 then (JUndefined, s1)
           else if length (doc_calendars s1) > 1 then (JUndefined, s1)
           else
             let raw = or_all (readDefaultFromMarkup s1);
                 s2 = s1\<lparr>activeCategoryRaw := raw, activeCategory := norm (JStr raw),
                         buttonsWired := False\<rparr>;
                 s3 = s2\<lparr>fcCalendarInstance := Some new_Calendar,
                         constructed := constructed s2 + 1\<rparr>;
                 (isWired, s4) = wireButtonsIfPresent s3;
                 s5 = (if \<not> isWired then s4\<lparr>observers := observers s4 + 1\<rparr> else s4);
                 s6 = render s5
             in (JUndefined, ensureSingleEventSource s6))"

section \<open>Observations and example pages\<close>

text \<open>\<open>calendar.getEvents()\<close> of the page's widget; no event while there is no widget.\<close>

definition getEvents :: "page \<Rightarrow> event list" where
  "getEvents s = (case fcCalendarInstance s of None \<Rightarrow> [] | Some cal \<Rightarrow> events cal)"

text \<open>The normalized category of a control, as \<open>updateButtonsUI\<close> compares it.\<close>

definition controlKey :: "control \<Rightarrow> string" where
  "controlKey btn = norm (JStr (or_all (data_cat btn)))"

text \<open>The controls of the group, none when the document has no group.\<close>

definition controls :: "page \<Rightarrow> control list" where
  "controls s = (case doc_filterEventsGroup s of None \<Rightarrow> [] | Some g \<Rightarrow> g)"

text \<open>A sequence of clicks, by the positions of the controls clicked.\<close>

primrec clicks :: "nat list \<Rightarrow> page \<Rightarrow> page" where
  "clicks [] s = s"
| "clicks (i # is) s = clicks is (click i s)"

text \<open>A sequence of \<open>attach\<close> calls, each with its context.\<close>

primrec attaches :: "(nat \<Rightarrow> bool) list \<Rightarrow> page \<Rightarrow> page" where
  "attaches [] s = s"
| "attaches (ctx # ctxs) s = attaches ctxs (snd (attach ctx s))"

text \<open>
  Example markup, as the file's header gives it: a Bootstrap button with its \<open>data-cat\<close>,
  selected or not, not wired yet.
\<close>

definition ex_button :: "string option \<Rightarrow> bool \<Rightarrow> control" where
  "ex_button cat on =
     \<lparr>data_cat = cat, active = on, btn_primary = on, btn_outline_primary = \<not> on,
      aria_pressed = Some (if on then ''true'' else ''false''), wired = False\<rparr>"

definition ex_page :: page where
  "ex_page =
     \<lparr>fcCalendarInstance = None, constructed = 0, doc_calendars = [False],
      doc_filterEventsGroup =
        Some [ex_button (Some ''category-904'') True, ex_button (Some ''category-3'') False,
              ex_button None False],
      activeCategoryRaw = [], activeCategory = [], buttonsWired = False, observers = 0\<rparr>"

text \<open>A page whose group has two controls of one normalized category.\<close>

definition ex_page_twins :: page where
  "ex_page_twins =
     ex_page\<lparr>doc_filterEventsGroup :=
        Some [ex_button (Some ''category-904'') True, ex_button (Some ''904'') False,
              ex_button (Some ''all'') False]\<rparr>"

text \<open>A page with two containers of id \<open>calendar\<close>.\<close>

definition ex_page_two_calendars :: page where
  "ex_page_two_calendars = ex_page\<lparr>doc_calendars := [False, False]\<rparr>"

text \<open>
  The page \<open>ex_page_two_calendars\<close> after an \<open>attach\<close>, and that page after the second
  container was taken out of the document.
\<close>

definition ex_aborted :: page where
  "ex_aborted = snd (attach (\<lambda>i. True) ex_page_two_calendars)"

definition ex_duplicate_removed :: page where
  "ex_duplicate_removed = ex_aborted\<lparr>doc_calendars := take 1 (doc_calendars ex_aborted)\<rparr>"

text \<open>
  Events of the feed: the category under \<open>extendedProps.category\<close> as the number \<open>904\<close>, under
  \<open>extendedProps.type\<close> as \<open>"category-3"\<close>, and under \<open>className\<close> only.
\<close>

definition no_props :: props where
  "no_props = \<lparr>ep_category = JUndefined, ep_Category = JUndefined, ep_type = JUndefined\<rparr>"

definition ex_event_904 :: event where
  "ex_event_904 =
     \<lparr>extendedProps = Some (no_props\<lparr>ep_category := JNum 904\<rparr>), category = JUndefined,
      className = JUndefined, source = Some 0, display = ''auto''\<rparr>"

definition ex_event_3 :: event where
  "ex_event_3 =
     \<lparr>extendedProps = Some (no_props\<lparr>ep_type := JStr ''category-3''\<rparr>), category = JUndefined,
      className = JUndefined, source = Some 0, display = ''auto''\<rparr>"

definition ex_event_className :: event where
  "ex_event_className =
     \<lparr>extendedProps = Some no_props, category = JUndefined,
      className = JStr ''category-904'', source = Some 0, display = ''auto''\<rparr>"

text \<open>A widget with the feed attached three times, and another source between.\<close>

definition ex_calendar :: calendar where
  "ex_calendar =
     \<lparr>eventSources =
        [\<lparr>sourceId = 0, publicId = ''main-feed'', url = Some FEED_URL\<rparr>,
         \<lparr>sourceId = 1, publicId = ''holidays'', url = None\<rparr>,
         \<lparr>sourceId = 2, publicId = '''', url = Some FEED_URL\<rparr>,
         \<lparr>sourceId = 3, publicId = '''', url = Some FEED_URL\<rparr>],
      events = [ex_event_904, ex_event_3, ex_event_className, ex_event_904\<lparr>source := Some 2\<rparr>],
      rendered = True, removed = []\<rparr>"

text \<open>The page after the first \<open>attach\<close>, and the same page holding the widget above.\<close>

definition ex_attached :: page where
  "ex_attached = snd (attach (\<lambda>i. True) ex_page)"

definition ex_loaded :: page where
  "ex_loaded = ex_attached\<lparr>fcCalendarInstance := Some ex_calendar\<rparr>"

text \<open>
  The page \<open>ex_loaded\<close> after another script moved the selection in the markup to the
  control \<open>"category-3"\<close>, the buttons being wired already.
\<close>

definition ex_markup_moved :: page where
  "ex_markup_moved =
     ex_loaded\<lparr>doc_filterEventsGroup :=
        Some [(ex_button (Some ''category-904'') False)\<lparr>wired := True\<rparr>,
              (ex_button (Some ''category-3'') True)\<lparr>wired := True\<rparr>,
              (ex_button None False)\<lparr>wired := True\<rparr>]\<rparr>"

text \<open>
  The page \<open>ex_attached\<close> after the widget fetched one record, the one that carries its
  category under \<open>className\<close> only, passed it through \<open>eventDataTransform\<close> and stored
  the result.
\<close>

definition ex_fetched :: page where
  "ex_fetched =
     (let (ev, s) = eventDataTransform ex_event_className ex_attached
      in s\<lparr>fcCalendarInstance := Some (new_Calendar\<lparr>events := [ev], rendered := True\<rparr>)\<rparr>)"

text \<open>
  A page on which \<open>attach\<close> ran before the control group was in the document: the group
  has appeared since, the widget holds the events above, and no control is wired yet.
\<close>

definition ex_late_group :: page where
  "ex_late_group =
     (snd (attach (\<lambda>i. True) (ex_page\<lparr>doc_filterEventsGroup := None\<rparr>)))
       \<lparr>doc_filterEventsGroup := doc_filterEventsGroup ex_page,
        fcCalendarInstance := Some ex_calendar\<rparr>"

section \<open>Properties of the normalizer\<close>

lemma of_char_lower_char:
  "(of_char (lower_char c) :: nat) =
     (let n = (of_char c :: nat)
      in if (65 \<le> n \<and> n \<le> 90) \<or> (192 \<le> n \<and> n \<le> 222 \<and> n \<noteq> 215) then n + 32 else n)"
  by (auto simp add: lower_char_def Let_def)

lemma is_space_lower_char [simp]: "is_space (lower_char c) = is_space c"
  by (auto simp add: is_space_def of_char_lower_char Let_def)

lemma is_digit_lower_char [simp]: "is_digit (lower_char c) = is_digit c"
  by (auto simp add: is_digit_def of_char_lower_char Let_def)

lemma lower_char_idem [simp]: "lower_char (lower_char c) = lower_char c"
proof -
  have "(of_char (lower_char (lower_char c)) :: nat) = of_char (lower_char c)"
    by (auto simp add: of_char_lower_char Let_def)
  then show ?thesis by simp
qed

lemma is_digit_not_space: "is_digit c \<Longrightarrow> \<not> is_space c"
  by (auto simp add: is_digit_def is_space_def Let_def)

lemma lower_char_digit: "is_digit c \<Longrightarrow> lower_char c = c"
  by (auto simp add: is_digit_def lower_char_def Let_def)

lemma toLowerCase_idem [simp]: "toLowerCase (toLowerCase s) = toLowerCase s"
  by (simp add: toLowerCase_def)

lemma trim_toLowerCase: "trim (toLowerCase s) = toLowerCase (trim s)"
  by (simp add: trim_def toLowerCase_def dropWhile_map rev_map comp_def)

lemma trim_fixed:
  assumes "s = [] \<or> (\<not> is_space (hd s) \<and> \<not> is_space (last s))"
  shows "trim s = s"
proof (cases s)
  case Nil
  then show ?thesis by (simp add: trim_def)
next
  case (Cons a as)
  with assms have h: "\<not> is_space (hd s)" and l: "\<not> is_space (last s)" by auto
  from h Cons have "dropWhile is_space s = s" by simp
  moreover from l Cons have "dropWhile is_space (rev s) = rev s"
    by (metis dropWhile_eq_self_iff hd_rev)
  ultimately show ?thesis by (simp add: trim_def)
qed

lemma last_dropWhile_nonempty:
  assumes "dropWhile P xs \<noteq> []"
  shows "last (dropWhile P xs) = last xs"
proof -
  have "last xs = last (takeWhile P xs @ dropWhile P xs)" by simp
  also have "\<dots> = last (dropWhile P xs)" using assms by (simp only: last_append if_False)
  finally show ?thesis by simp
qed

lemma trim_ends:
  "trim s = [] \<or> (\<not> is_space (hd (trim s)) \<and> \<not> is_space (last (trim s)))"
proof (cases "trim s = []")
  case True
  then show ?thesis by simp
next
  case False
  define a where "a = dropWhile is_space s"
  define b where "b = dropWhile is_space (rev a)"
  have t: "trim s = rev b" by (simp add: trim_def a_def b_def)
  with False have bne: "b \<noteq> []" by simp
  then have ane: "a \<noteq> []" by (auto simp add: b_def)
  have "\<not> is_space (hd b)" using bne unfolding b_def by (rule hd_dropWhile)
  then have l: "\<not> is_space (last (trim s))" using bne by (simp add: t last_rev)
  have "last b = last (rev a)" using bne unfolding b_def by (rule last_dropWhile_nonempty)
  then have "hd (trim s) = hd a" using bne ane by (simp add: t hd_rev last_rev)
  moreover have "\<not> is_space (hd a)" using ane unfolding a_def by (rule hd_dropWhile)
  ultimately show ?thesis using l by simp
qed

lemma trim_idem [simp]: "trim (trim s) = trim s"
  by (rule trim_fixed) (rule trim_ends)

lemma trim_all_space: "list_all is_space s \<Longrightarrow> trim s = []"
proof -
  assume "list_all is_space s"
  then have "dropWhile is_space s = []" by (induction s) auto
  then show ?thesis by (simp add: trim_def del: dropWhile_eq_Nil_conv)
qed

lemma match_digits_char:
  "match_digits s =
     (if list_ex is_digit s then Some (takeWhile is_digit (dropWhile (\<lambda>c. \<not> is_digit c) s)) else None)"
  by (induction s) auto

lemma match_digits_SomeD:
  "match_digits s = Some m \<Longrightarrow> m \<noteq> [] \<and> list_all is_digit m"
  by (induction s) (auto split: if_splits simp add: list_all_iff dest: set_takeWhileD)

lemma match_digits_all_digits:
  "m \<noteq> [] \<Longrightarrow> list_all is_digit m \<Longrightarrow> match_digits m = Some m"
  by (cases m) (auto simp add: list_all_iff)

lemma digits_fixed:
  assumes "m \<noteq> []" "list_all is_digit m"
  shows "toLowerCase (trim m) = m"
proof -
  from assms have "\<not> is_space (hd m)" "\<not> is_space (last m)"
    by (auto simp add: list_all_iff is_digit_not_space)
  then have "trim m = m" by (simp add: trim_fixed)
  moreover have "toLowerCase m = m"
    using assms(2) by (simp add: toLowerCase_def list_all_iff lower_char_digit map_idI)
  ultimately show ?thesis by simp
qed

lemma norm_JStr:
  "norm (JStr t) =
     (let s = toLowerCase (trim t)
      in if s = ''all'' then ''all'' else (case match_digits s of Some m \<Rightarrow> m | None \<Rightarrow> s))"
  by (simp add: norm_def nullish_def)

lemma norm_JStr_norm: "norm (JStr (norm x)) = norm x"
proof (cases "nullish x")
  case True
  then show ?thesis by (simp add: norm_def nullish_def trim_def toLowerCase_def)
next
  case False
  define s where "s = toLowerCase (trim (js_String x))"
  have fx: "toLowerCase (trim s) = s"
    by (simp add: s_def trim_toLowerCase)
  show ?thesis
  proof (cases "s = ''all''")
    case True
    have "norm x = ''all''" using False True by (simp add: norm_def s_def)
    moreover have "norm (JStr ''all'') = ''all''" by code_simp
    ultimately show ?thesis by simp
  next
    case nall: False
    show ?thesis
    proof (cases "match_digits s")
      case None
      then have "norm x = s" using False nall by (simp add: norm_def s_def Let_def)
      moreover have "norm (JStr s) = s" using nall None by (simp add: norm_JStr fx)
      ultimately show ?thesis by simp
    next
      case (Some m)
      then have nx: "norm x = m" using False nall by (simp add: norm_def s_def Let_def)
      from Some have m: "m \<noteq> []" "list_all is_digit m" by (auto dest: match_digits_SomeD)
      then have "toLowerCase (trim m) = m" by (rule digits_fixed)
      moreover have "m \<noteq> ''all''" using m(2) by (auto simp add: is_digit_def)
      ultimately have "norm (JStr m) = m"
        using m by (simp add: norm_JStr match_digits_all_digits)
      with nx show ?thesis by simp
    qed
  qed
qed

text \<open>
  Claim C4. \<open>norm\<close> is idempotent: normalizing a key again gives the same key. It is a
  total function: \<open>String(val)\<close> throws for no primitive value, and at \<open>null\<close>, the empty
  string, \<open>"ALL"\<close>, \<open>"category-904"\<close>, the number \<open>904\<close> and \<open>"abc"\<close> it returns the strings
  below.
\<close>

theorem norm_idempotent_total:
  "norm (JStr (norm x)) = norm x
   \<and> norm JNull = ''''
   \<and> norm (JStr '''') = ''''
   \<and> norm (JStr ''ALL'') = ''all''
   \<and> norm (JStr ''category-904'') = ''904''
   \<and> norm (JNum 904) = ''904''
   \<and> norm (JStr ''abc'') = ''abc''"
proof -
  have "norm JNull = ''''" by code_simp
  moreover have "norm (JStr '''') = ''''" by code_simp
  moreover have "norm (JStr ''ALL'') = ''all''" by code_simp
  moreover have "norm (JStr ''category-904'') = ''904''" by code_simp
  moreover have "norm (JNum 904) = ''904''" by code_simp
  moreover have "norm (JStr ''abc'') = ''abc''" by code_simp
  ultimately show ?thesis by (simp only: norm_JStr_norm simp_thms)
qed

text \<open>
  Claim C5. The cases of \<open>norm\<close>: \<open>null\<close> (and \<open>undefined\<close>) and a string of white space
  only give the empty string; any other value \<open>v\<close> is turned into the string
  \<open>s = String(v).trim().toLowerCase()\<close>, and the result is \<open>"all"\<close> when \<open>s\<close> is \<open>"all"\<close>,
  else the first maximal run of decimal digits of \<open>s\<close> when \<open>s\<close> has a digit, else \<open>s\<close>
  itself. \<open>"category-904"\<close>, \<open>"904"\<close> and the number \<open>904\<close> all give \<open>"904"\<close>.
\<close>

theorem norm_cases:
  "norm JNull = '''' \<and> norm JUndefined = ''''
   \<and> (list_all is_space w \<longrightarrow> norm (JStr w) = '''')
   \<and> (\<not> nullish v \<longrightarrow>
        norm v =
          (let s = toLowerCase (trim (js_String v))
           in if s = ''all'' then ''all''
              else if list_ex is_digit s
                   then takeWhile is_digit (dropWhile (\<lambda>c. \<not> is_digit c) s)
                   else s))
   \<and> norm (JStr ''category-904'') = ''904''
   \<and> norm (JStr ''904'') = ''904''
   \<and> norm (JNum 904) = ''904''"
proof -
  have n: "norm JNull = ''''" "norm JUndefined = ''''"
    by (simp_all add: norm_def nullish_def)
  have w: "list_all is_space w \<longrightarrow> norm (JStr w) = ''''"
    by (simp add: norm_JStr trim_all_space toLowerCase_def)
  have v: "\<not> nullish v \<longrightarrow>
        norm v =
          (let s = toLowerCase (trim (js_String v))
           in if s = ''all'' then ''all''
              else if list_ex is_digit s
                   then takeWhile is_digit (dropWhile (\<lambda>c. \<not> is_digit c) s)
                   else s)"
    by (simp add: norm_def Let_def match_digits_char)
  have c: "norm (JStr ''category-904'') = ''904''" "norm (JStr ''904'') = ''904''"
    "norm (JNum 904) = ''904''"
    by code_simp+
  from n w v c show ?thesis by (simp only: simp_thms)
qed

theorem norm_cases_witness:
  "list_all is_space ''  '' \<and> norm (JStr ''  '') = ''''
   \<and> \<not> nullish (JStr '' Room 12b, floor 7 '')
   \<and> norm (JStr '' Room 12b, floor 7 '') = ''12''"
proof -
  have a: "list_all is_space ''  ''" by code_simp
  have b: "\<not> nullish (JStr '' Room 12b, floor 7 '')" by (simp add: nullish_def)
  have e: "(let s = toLowerCase (trim (js_String (JStr '' Room 12b, floor 7 '')))
           in if s = ''all'' then ''all''
              else if list_ex is_digit s
                   then takeWhile is_digit (dropWhile (\<lambda>c. \<not> is_digit c) s)
                   else s) = ''12''"
    by code_simp
  from norm_cases [of "''  ''" "JStr '' Room 12b, floor 7 ''"] a b
  have "norm (JStr ''  '') = ''''"
    and "norm (JStr '' Room 12b, floor 7 '') =
          (let s = toLowerCase (trim (js_String (JStr '' Room 12b, floor 7 '')))
           in if s = ''all'' then ''all''
              else if list_ex is_digit s
                   then takeWhile is_digit (dropWhile (\<lambda>c. \<not> is_digit c) s)
                   else s)"
    by blast+
  with a b e show ?thesis by (simp only: simp_thms)
qed

section \<open>Properties of the visibility filter\<close>

lemma applyFilter_loop_length: "length (applyFilter_loop A evs) = length evs"
  by (induction evs) (simp_all add: Let_def)

lemma applyFilter_loop_nth:
  "i < length evs \<Longrightarrow>
     applyFilter_loop A evs ! i =
       (evs ! i)\<lparr>display := showFlag (A = ''all'' \<or> applyFilter_evCat (evs ! i) = A)\<rparr>"
proof (induction evs arbitrary: i)
  case Nil
  then show ?case by simp
next
  case (Cons ev evs)
  then show ?case by (cases i) (simp_all add: Let_def)
qed

lemma getEvents_applyFilter:
  "getEvents (applyFilter s) = applyFilter_loop (activeCategory s) (getEvents s)"
  by (simp add: getEvents_def applyFilter_def split: option.splits)

lemma applyFilter_frame:
  "activeCategory (applyFilter s) = activeCategory s"
  "activeCategoryRaw (applyFilter s) = activeCategoryRaw s"
  "doc_filterEventsGroup (applyFilter s) = doc_filterEventsGroup s"
  "buttonsWired (applyFilter s) = buttonsWired s"
  by (simp_all add: applyFilter_def split: option.splits)

lemma showFlag_auto: "showFlag sh = ''auto'' \<longleftrightarrow> sh"
  by (simp add: showFlag_def)

lemma showFlag_none: "showFlag sh = ''none'' \<longleftrightarrow> \<not> sh"
  by (simp add: showFlag_def)

text \<open>
  Claim C1. \<open>applyFilter\<close>, run with active category \<open>activeCategory s\<close> on the events the
  widget holds, keeps their number and order, and sets the display of each event to
  \<open>auto\<close> if and only if the active category is \<open>"all"\<close> or equals the normalized category
  of the event, and to \<open>none\<close> otherwise; nothing else of the event changes.
\<close>

theorem applyFilter_display:
  assumes "i < length (getEvents s)"
  shows "length (getEvents (applyFilter s)) = length (getEvents s)
     \<and> (display (getEvents (applyFilter s) ! i) = ''auto'' \<longleftrightarrow>
          (activeCategory s = ''all''
           \<or> norm (nullish_or (extendedCategory (getEvents s ! i)) (JStr '''')) = activeCategory s))
     \<and> (display (getEvents (applyFilter s) ! i) = ''none'' \<longleftrightarrow>
          \<not> (activeCategory s = ''all''
           \<or> norm (nullish_or (extendedCategory (getEvents s ! i)) (JStr '''')) = activeCategory s))
     \<and> getEvents (applyFilter s) ! i =
          (getEvents s ! i)\<lparr>display := display (getEvents (applyFilter s) ! i)\<rparr>"
  using assms
  by (simp add: getEvents_applyFilter applyFilter_loop_length applyFilter_loop_nth
      showFlag_auto showFlag_none applyFilter_evCat_def)

theorem applyFilter_display_witness:
  "(1::nat) < length (getEvents ex_loaded)
   \<and> activeCategory ex_loaded = ''904''
   \<and> norm (nullish_or (extendedCategory (getEvents ex_loaded ! 1)) (JStr '''')) = ''3''
   \<and> display (getEvents (applyFilter ex_loaded) ! 1) = ''none''
   \<and> map display (getEvents (applyFilter ex_loaded)) = [''auto'', ''none'', ''none'', ''auto'']"
proof -
  have h: "(1::nat) < length (getEvents ex_loaded)" by code_simp
  have a: "activeCategory ex_loaded = ''904''" by code_simp
  have k: "norm (nullish_or (extendedCategory (getEvents ex_loaded ! 1)) (JStr '''')) = ''3''"
    by code_simp
  have m: "map display (getEvents (applyFilter ex_loaded)) = [''auto'', ''none'', ''none'', ''auto'']"
    by code_simp
  from applyFilter_display [OF h] a k
  have "display (getEvents (applyFilter ex_loaded) ! 1) = ''none''" by simp
  with h a k m show ?thesis by (simp only: simp_thms)
qed

section \<open>Properties of the controls\<close>

lemma or_all_missing: "a = None \<or> a = Some [] \<Longrightarrow> or_all a = ''all''"
  by (auto simp add: or_all_def)

lemma or_all_nonempty: "or_all a \<noteq> []"
  by (simp add: or_all_def split: option.splits)

lemma norm_all: "norm (JStr ''all'') = ''all''"
  by code_simp

lemma updateButtonsUI_map: "updateButtonsUI A g = map (syncButton A) g"
  by (induction g) simp_all

lemma syncButton_fields:
  "data_cat (syncButton A b) = data_cat b"
  "wired (syncButton A b) = wired b"
  "active (syncButton A b) = (controlKey b = A)"
  "btn_primary (syncButton A b) = (controlKey b = A)"
  "btn_outline_primary (syncButton A b) = (controlKey b \<noteq> A)"
  "aria_pressed (syncButton A b) = Some (if controlKey b = A then ''true'' else ''false'')"
  by (simp_all add: syncButton_def controlKey_def Let_def)

lemma controlKey_syncButton: "controlKey (syncButton A b) = controlKey b"
  by (simp add: controlKey_def syncButton_fields)

lemma controlKey_wireButton: "controlKey (wireButton b) = controlKey b"
  by (simp add: controlKey_def wireButton_def)

lemma readDefaultFromMarkup_group:
  "doc_filterEventsGroup s = Some g \<Longrightarrow>
     readDefaultFromMarkup s =
       Some (case find active g of Some btn \<Rightarrow> or_all (data_cat btn) | None \<Rightarrow> ''all'')"
  by (simp add: readDefaultFromMarkup_def getFilterGroup_def split: option.splits)

lemma click_wired:
  assumes "doc_filterEventsGroup s = Some g" "i < length g" "wired (g ! i)"
  shows "click i s =
     applyFilter (s\<lparr>activeCategoryRaw := or_all (data_cat (g ! i)),
                    activeCategory := controlKey (g ! i),
                    doc_filterEventsGroup := Some (updateButtonsUI (controlKey (g ! i)) g)\<rparr>)"
  using assms by (simp add: click_def getFilterGroup_def Let_def controlKey_def)

lemma click_not_wired:
  assumes "doc_filterEventsGroup s = Some g" "\<not> (i < length g \<and> wired (g ! i))"
  shows "click i s = s"
  using assms by (auto simp add: click_def getFilterGroup_def)

text \<open>
  Claim C10. A control whose \<open>data-cat\<close> attribute is missing or empty counts as category
  \<open>"all"\<close> at each of the three places that read the attribute: \<open>readDefaultFromMarkup\<close>
  gives \<open>"all"\<close> when it is the selected control, a click on it makes \<open>"all"\<close> the active
  category, and \<open>updateButtonsUI\<close> selects it exactly when the active category is \<open>"all"\<close>.
\<close>

theorem missing_data_cat_is_all:
  assumes "data_cat b = None \<or> data_cat b = Some ''''"
    and "doc_filterEventsGroup s = Some g"
    and "i < length g" and "g ! i = b"
  shows "(find active g = Some b \<longrightarrow> readDefaultFromMarkup s = Some ''all'')
     \<and> (wired b \<longrightarrow> activeCategoryRaw (click i s) = ''all'' \<and> activeCategory (click i s) = ''all'')
     \<and> active (updateButtonsUI A g ! i) = (A = ''all'')
     \<and> aria_pressed (updateButtonsUI A g ! i) = Some (if A = ''all'' then ''true'' else ''false'')"
proof -
  from assms(1) have o: "or_all (data_cat b) = ''all''" by (rule or_all_missing)
  then have k: "controlKey b = ''all''" by (simp add: controlKey_def norm_all)
  have r: "find active g = Some b \<longrightarrow> readDefaultFromMarkup s = Some ''all''"
    using assms(2) o by (simp add: readDefaultFromMarkup_group)
  have c: "wired b \<longrightarrow>
      activeCategoryRaw (click i s) = ''all'' \<and> activeCategory (click i s) = ''all''"
    using assms(2,3,4) o k by (simp add: click_wired applyFilter_frame)
  have u: "active (updateButtonsUI A g ! i) = (A = ''all'')"
    "aria_pressed (updateButtonsUI A g ! i) = Some (if A = ''all'' then ''true'' else ''false'')"
    using assms(3,4) k by (auto simp add: updateButtonsUI_map syncButton_fields)
  from r c u show ?thesis by (simp only: simp_thms)
qed

theorem missing_data_cat_is_all_witness:
  "data_cat (ex_button None True) = None
   \<and> find active [ex_button (Some ''category-3'') False, ex_button None True] = Some (ex_button None True)
   \<and> readDefaultFromMarkup
        (ex_page\<lparr>doc_filterEventsGroup := Some [ex_button (Some ''category-3'') False, ex_button None True]\<rparr>)
       = Some ''all''
   \<and> wired (the (doc_filterEventsGroup ex_loaded) ! 2)
   \<and> data_cat (the (doc_filterEventsGroup ex_loaded) ! 2) = None
   \<and> activeCategory ex_loaded = ''904''
   \<and> activeCategory (click 2 ex_loaded) = ''all''
   \<and> map active (the (doc_filterEventsGroup (click 2 ex_loaded))) = [False, False, True]"
proof -
  let ?g = "[ex_button (Some ''category-3'') False, ex_button None True]"
  let ?s = "ex_page\<lparr>doc_filterEventsGroup := Some ?g\<rparr>"
  have d: "data_cat (ex_button None True) = None" by (simp add: ex_button_def)
  have f: "find active ?g = Some (ex_button None True)" by (simp add: ex_button_def)
  have g: "doc_filterEventsGroup ?s = Some ?g" by simp
  from missing_data_cat_is_all [of "ex_button None True" ?s ?g 1 "''all''"] d f g
  have r: "readDefaultFromMarkup ?s = Some ''all''" by simp
  let ?h = "the (doc_filterEventsGroup ex_loaded)"
  have h: "doc_filterEventsGroup ex_loaded = Some ?h" by code_simp
  have w: "wired (?h ! 2)" by code_simp
  have n: "data_cat (?h ! 2) = None" by code_simp
  have l: "(2::nat) < length ?h" by code_simp
  from missing_data_cat_is_all [of "?h ! 2" ex_loaded ?h 2 "''all''"] n h l w
  have c: "activeCategory (click 2 ex_loaded) = ''all''" by simp
  have a: "activeCategory ex_loaded = ''904''" by code_simp
  have m: "map active (the (doc_filterEventsGroup (click 2 ex_loaded))) = [False, False, True]"
    by code_simp
  from d f r w n a c m show ?thesis by (simp only: simp_thms)
qed

section \<open>The single-select invariant\<close>

lemma syncButton_idem: "syncButton A (syncButton A b) = syncButton A b"
  by (simp add: syncButton_def Let_def)

lemma filter_key_le_1:
  "distinct (map f xs) \<Longrightarrow> length (filter (\<lambda>x. f x = a) xs) \<le> 1"
proof (induction xs)
  case Nil
  then show ?case by simp
next
  case (Cons x xs)
  show ?case
  proof (cases "f x = a")
    case True
    with Cons.prems have "\<forall>y \<in> set xs. f y \<noteq> a" by (auto simp add: image_iff)
    then have "filter (\<lambda>x. f x = a) xs = []" by (simp add: filter_empty_conv)
    with True show ?thesis by simp
  next
    case False
    with Cons show ?thesis by simp
  qed
qed

lemma filter_key_eq_1:
  assumes "distinct (map f xs)"
  shows "length (filter (\<lambda>x. f x = a) xs) = 1 \<longleftrightarrow> a \<in> set (map f xs)"
proof
  assume "length (filter (\<lambda>x. f x = a) xs) = 1"
  then have "filter (\<lambda>x. f x = a) xs \<noteq> []" by auto
  then show "a \<in> set (map f xs)" by (auto simp add: filter_empty_conv)
next
  assume "a \<in> set (map f xs)"
  then have "filter (\<lambda>x. f x = a) xs \<noteq> []" by (auto simp add: filter_empty_conv)
  then have "length (filter (\<lambda>x. f x = a) xs) \<ge> 1" by (cases "filter (\<lambda>x. f x = a) xs") simp_all
  with filter_key_le_1 [OF assms, of a] show "length (filter (\<lambda>x. f x = a) xs) = 1" by simp
qed

text \<open>The controls are in step with the active category \<open>A\<close>.\<close>

lemma wireButtonsIfPresent_group:
  assumes "doc_filterEventsGroup s = Some g"
  shows "doc_filterEventsGroup (snd (wireButtonsIfPresent s)) =
           Some (map (syncButton (activeCategory (snd (wireButtonsIfPresent s)))) (map wireButton g))"
  using assms
  by (simp add: wireButtonsIfPresent_def getFilterGroup_def Let_def updateButtonsUI_map)

lemma click_group:
  assumes "doc_filterEventsGroup s = Some g"
    and "map (syncButton (activeCategory s)) g = g"
  shows "\<exists>g'. doc_filterEventsGroup (click i s) = Some g'
     \<and> map controlKey g' = map controlKey g
     \<and> map (syncButton (activeCategory (click i s))) g' = g'"
proof (cases "i < length g \<and> wired (g ! i)")
  case True
  then have "click i s =
     applyFilter (s\<lparr>activeCategoryRaw := or_all (data_cat (g ! i)),
                    activeCategory := controlKey (g ! i),
                    doc_filterEventsGroup := Some (updateButtonsUI (controlKey (g ! i)) g)\<rparr>)"
    using assms(1) by (simp add: click_wired)
  then have "doc_filterEventsGroup (click i s) = Some (map (syncButton (controlKey (g ! i))) g)"
    and "activeCategory (click i s) = controlKey (g ! i)"
    by (simp_all add: applyFilter_frame updateButtonsUI_map)
  then show ?thesis by (simp add: comp_def controlKey_syncButton syncButton_idem)
next
  case False
  with assms(1) have "click i s = s" by (rule click_not_wired)
  with assms show ?thesis by simp
qed

lemma clicks_group:
  assumes "doc_filterEventsGroup s = Some g"
    and "map (syncButton (activeCategory s)) g = g"
  shows "\<exists>g'. doc_filterEventsGroup (clicks js s) = Some g'
     \<and> map controlKey g' = map controlKey g
     \<and> map (syncButton (activeCategory (clicks js s))) g' = g'"
  using assms
proof (induction js arbitrary: s g)
  case Nil
  then show ?case by simp
next
  case (Cons j js)
  from click_group [OF Cons.prems, of j] obtain g1 where
    g1: "doc_filterEventsGroup (click j s) = Some g1"
      "map controlKey g1 = map controlKey g"
      "map (syncButton (activeCategory (click j s))) g1 = g1"
    by blast
  from Cons.IH [OF g1(1) g1(3)] g1(2) show ?case by simp
qed

lemma synced_fields:
  assumes "map (syncButton A) g = g" "b \<in> set g"
  shows "active b = (controlKey b = A)"
    and "aria_pressed b = Some (if controlKey b = A then ''true'' else ''false'')"
proof -
  from assms(1) have "map (syncButton A) g = map (\<lambda>x. x) g" by simp
  then have "\<forall>x \<in> set g. syncButton A x = x" by (simp only: map_eq_conv)
  with assms(2) have "syncButton A b = b" by blast
  then have "active b = active (syncButton A b)" "aria_pressed b = aria_pressed (syncButton A b)"
    by simp_all
  then show "active b = (controlKey b = A)"
    and "aria_pressed b = Some (if controlKey b = A then ''true'' else ''false'')"
    by (simp_all add: syncButton_fields)
qed

text \<open>
  Claim C6, as the code has it. Once the controls are wired, after any sequence of clicks
  a control is selected if and only if its normalized category equals the stored active
  category, and its \<open>aria-pressed\<close> is \<open>"true"\<close> if and only if it is selected (\<open>"false"\<close>
  otherwise); this holds for every group, so the number of selected controls is the number
  of controls whose normalized category is the active one. When the normalized categories
  of the controls are pairwise distinct, at most one control is selected, and exactly one
  when some control has the active category.
\<close>

theorem single_select_after_clicks:
  assumes "doc_filterEventsGroup s0 = Some g0"
  shows "map controlKey (controls (clicks js (snd (wireButtonsIfPresent s0)))) = map controlKey g0
     \<and> (\<forall>b \<in> set (controls (clicks js (snd (wireButtonsIfPresent s0)))).
          (active b \<longleftrightarrow> controlKey b = activeCategory (clicks js (snd (wireButtonsIfPresent s0))))
          \<and> (aria_pressed b = Some ''true'' \<longleftrightarrow> active b)
          \<and> aria_pressed b = Some (if active b then ''true'' else ''false''))
     \<and> length (filter active (controls (clicks js (snd (wireButtonsIfPresent s0)))))
         = length (filter (\<lambda>k. k = activeCategory (clicks js (snd (wireButtonsIfPresent s0))))
                     (map controlKey g0))
     \<and> (distinct (map controlKey g0) \<longrightarrow>
          length (filter active (controls (clicks js (snd (wireButtonsIfPresent s0))))) \<le> 1
          \<and> (length (filter active (controls (clicks js (snd (wireButtonsIfPresent s0))))) = 1 \<longleftrightarrow>
               activeCategory (clicks js (snd (wireButtonsIfPresent s0))) \<in> set (map controlKey g0)))"
proof -
  define s1 where "s1 = snd (wireButtonsIfPresent s0)"
  define g1 where "g1 = map (syncButton (activeCategory s1)) (map wireButton g0)"
  have grp1: "doc_filterEventsGroup s1 = Some g1"
    unfolding s1_def g1_def using assms(1) by (rule wireButtonsIfPresent_group)
  have keys1: "map controlKey g1 = map controlKey g0"
    by (simp add: g1_def comp_def controlKey_syncButton controlKey_wireButton)
  have sync1: "map (syncButton (activeCategory s1)) g1 = g1"
    by (simp add: g1_def comp_def syncButton_idem)
  define s where "s = clicks js s1"
  from clicks_group [OF grp1 sync1, of js] obtain g where
    g: "doc_filterEventsGroup s = Some g" "map controlKey g = map controlKey g1"
      "map (syncButton (activeCategory s)) g = g"
    unfolding s_def by blast
  have c: "controls s = g" using g(1) by (simp add: controls_def)
  have keys: "map controlKey g = map controlKey g0" using g(2) keys1 by simp
  have act: "\<And>b. b \<in> set g \<Longrightarrow> active b = (controlKey b = activeCategory s)"
    and aria: "\<And>b. b \<in> set g \<Longrightarrow>
        aria_pressed b = Some (if controlKey b = activeCategory s then ''true'' else ''false'')"
    using synced_fields [OF g(3)] by blast+
  have each: "\<forall>b \<in> set g.
          (active b \<longleftrightarrow> controlKey b = activeCategory s)
          \<and> (aria_pressed b = Some ''true'' \<longleftrightarrow> active b)
          \<and> aria_pressed b = Some (if active b then ''true'' else ''false'')"
    using act aria by auto
  have fil: "filter active g = filter (\<lambda>b. controlKey b = activeCategory s) g"
    using act by (auto intro: filter_cong)
  have "length (filter (\<lambda>k. k = activeCategory s) (map controlKey g))
      = length (filter (\<lambda>b. controlKey b = activeCategory s) g)"
    by (simp add: filter_map comp_def)
  then have cnt: "length (filter active g)
      = length (filter (\<lambda>k. k = activeCategory s) (map controlKey g0))"
    using fil keys by simp
  have dis: "distinct (map controlKey g0) \<longrightarrow>
          length (filter active g) \<le> 1
          \<and> (length (filter active g) = 1 \<longleftrightarrow> activeCategory s \<in> set (map controlKey g0))"
  proof
    assume "distinct (map controlKey g0)"
    with keys have dist: "distinct (map controlKey g)" by simp
    have le: "length (filter active g) \<le> 1"
      unfolding fil using dist by (rule filter_key_le_1)
    have one: "length (filter active g) = 1 \<longleftrightarrow> activeCategory s \<in> set (map controlKey g0)"
      unfolding fil using filter_key_eq_1 [OF dist, of "activeCategory s"] keys by simp
    from le one show "length (filter active g) \<le> 1
          \<and> (length (filter active g) = 1 \<longleftrightarrow> activeCategory s \<in> set (map controlKey g0))"
      by (simp only: simp_thms)
  qed
  from keys each cnt dis show ?thesis
    unfolding s_def s1_def c [unfolded s_def s1_def] by (simp only: simp_thms)
qed

theorem single_select_after_clicks_witness:
  "doc_filterEventsGroup ex_page = Some (controls ex_page)
   \<and> distinct (map controlKey (controls ex_page))
   \<and> map controlKey (controls ex_page) = [''904'', ''3'', ''all'']
   \<and> length (filter active (controls (clicks [1, 2, 0, 1] (snd (wireButtonsIfPresent ex_page))))) = 1
   \<and> activeCategory (clicks [1, 2, 0, 1] (snd (wireButtonsIfPresent ex_page))) = ''3''
   \<and> map active (controls (clicks [1, 2, 0, 1] (snd (wireButtonsIfPresent ex_page))))
       = [False, True, False]
   \<and> map aria_pressed (controls (clicks [1, 2, 0, 1] (snd (wireButtonsIfPresent ex_page))))
       = [Some ''false'', Some ''true'', Some ''false'']
   \<and> doc_filterEventsGroup ex_page_twins = Some (controls ex_page_twins)
   \<and> map controlKey (controls ex_page_twins) = [''904'', ''904'', ''all'']
   \<and> activeCategory (clicks [2, 1] (snd (wireButtonsIfPresent ex_page_twins))) = ''904''
   \<and> length (filter active (controls (clicks [2, 1] (snd (wireButtonsIfPresent ex_page_twins))))) = 2
   \<and> map aria_pressed (controls (clicks [2, 1] (snd (wireButtonsIfPresent ex_page_twins))))
       = [Some ''true'', Some ''true'', Some ''false'']"
proof -
  let ?s = "clicks [1, 2, 0, 1] (snd (wireButtonsIfPresent ex_page))"
  have g: "doc_filterEventsGroup ex_page = Some (controls ex_page)" by code_simp
  have k: "map controlKey (controls ex_page) = [''904'', ''3'', ''all'']" by code_simp
  then have d: "distinct (map controlKey (controls ex_page))" by simp
  have a: "activeCategory ?s = ''3''" by code_simp
  from single_select_after_clicks [OF g, of "[1, 2, 0, 1]"] d a k
  have one: "length (filter active (controls ?s)) = 1" by simp
  have m: "map active (controls ?s) = [False, True, False]" by code_simp
  have p: "map aria_pressed (controls ?s) = [Some ''false'', Some ''true'', Some ''false'']"
    by code_simp
  let ?t = "clicks [2, 1] (snd (wireButtonsIfPresent ex_page_twins))"
  have g': "doc_filterEventsGroup ex_page_twins = Some (controls ex_page_twins)" by code_simp
  have k': "map controlKey (controls ex_page_twins) = [''904'', ''904'', ''all'']" by code_simp
  have a': "activeCategory ?t = ''904''" by code_simp
  from single_select_after_clicks [OF g', of "[2, 1]"]
  have "length (filter active (controls ?t))
      = length (filter (\<lambda>k. k = activeCategory ?t) (map controlKey (controls ex_page_twins)))"
    by blast
  with a' k' have two: "length (filter active (controls ?t)) = 2" by simp
  have p': "map aria_pressed (controls ?t) = [Some ''true'', Some ''true'', Some ''false'']"
    by code_simp
  from g d k one a m p g' k' a' two p' show ?thesis by (simp only: simp_thms)
qed

text \<open>
  The claim as the spec states it fails when two controls have one normalized category:
  with the controls \<open>"category-904"\<close>, \<open>"904"\<close> and \<open>"all"\<close>, a click on the second selects
  the first two.
\<close>

theorem single_select_counterexample:
  "map controlKey (controls ex_page_twins) = [''904'', ''904'', ''all'']
   \<and> map active (controls (clicks [1] (snd (wireButtonsIfPresent ex_page_twins))))
       = [True, True, False]
   \<and> length (filter active (controls (clicks [1] (snd (wireButtonsIfPresent ex_page_twins))))) = 2"
proof -
  have "map controlKey (controls ex_page_twins) = [''904'', ''904'', ''all'']" by code_simp
  moreover have "map active (controls (clicks [1] (snd (wireButtonsIfPresent ex_page_twins))))
       = [True, True, False]" by code_simp
  moreover have
    "length (filter active (controls (clicks [1] (snd (wireButtonsIfPresent ex_page_twins))))) = 2"
    by code_simp
  ultimately show ?thesis by (simp only: simp_thms)
qed

section \<open>Properties of the source guard\<close>

lemma remove_from_fold:
  "remove_from i matching cal = fold remove_source (drop i matching) cal"
proof (induction i matching cal rule: remove_from.induct)
  case (1 i matching cal)
  show ?case
  proof (cases "i < length matching")
    case True
    then have "drop i matching = matching ! i # drop (i + 1) matching"
      by (simp add: Cons_nth_drop_Suc)
    with True "1.IH" show ?thesis by (simp add: remove_from.simps [of i])
  next
    case False
    then show ?thesis by (simp add: remove_from.simps [of i])
  qed
qed

lemma fold_remove_source:
  "fold remove_source xs cal =
     cal\<lparr>eventSources := filter (\<lambda>t. sourceId t \<notin> sourceId ` set xs) (eventSources cal),
         events := filter (\<lambda>ev. source ev \<notin> Some ` sourceId ` set xs) (events cal),
         removed := removed cal @ xs\<rparr>"
proof (induction xs arbitrary: cal)
  case Nil
  then show ?case by simp
next
  case (Cons x xs)
  have "fold remove_source (x # xs) cal = fold remove_source xs (remove_source x cal)" by simp
  also have "\<dots> =
     (remove_source x cal)
       \<lparr>eventSources :=
          filter (\<lambda>t. sourceId t \<notin> sourceId ` set xs) (eventSources (remove_source x cal)),
        events :=
          filter (\<lambda>ev. source ev \<notin> Some ` sourceId ` set xs) (events (remove_source x cal)),
        removed := removed (remove_source x cal) @ xs\<rparr>"
    by (rule Cons.IH)
  also have "\<dots> =
     cal\<lparr>eventSources := filter (\<lambda>t. sourceId t \<notin> sourceId ` set (x # xs)) (eventSources cal),
         events := filter (\<lambda>ev. source ev \<notin> Some ` sourceId ` set (x # xs)) (events cal),
         removed := removed cal @ x # xs\<rparr>"
    by (simp add: remove_source_def conj_commute)
  finally show ?case .
qed

lemma ensureSingleEventSource_cal_fold:
  "ensureSingleEventSource_cal cal =
     fold remove_source (drop 1 (filter (\<lambda>src. url src = Some FEED_URL) (eventSources cal))) cal"
proof -
  let ?m = "filter (\<lambda>src. url src = Some FEED_URL) (eventSources cal)"
  show ?thesis
  proof (cases "length ?m > 1")
    case True
    then show ?thesis by (simp add: ensureSingleEventSource_cal_def Let_def remove_from_fold)
  next
    case False
    then have "drop 1 ?m = []" by simp
    with False show ?thesis by (simp add: ensureSingleEventSource_cal_def Let_def)
  qed
qed

lemma filter_ids_eq_filter_mem:
  assumes "distinct (map sourceId xs)" "set ds \<subseteq> set xs"
  shows "filter (\<lambda>t. sourceId t \<notin> sourceId ` set ds) xs = filter (\<lambda>t. t \<notin> set ds) xs"
proof (rule filter_cong [OF refl])
  fix t assume t: "t \<in> set xs"
  from assms(1) have inj: "inj_on sourceId (set xs)" by (simp add: distinct_map)
  show "(sourceId t \<notin> sourceId ` set ds) = (t \<notin> set ds)"
  proof
    assume "sourceId t \<notin> sourceId ` set ds"
    then show "t \<notin> set ds" by blast
  next
    assume n: "t \<notin> set ds"
    show "sourceId t \<notin> sourceId ` set ds"
    proof
      assume "sourceId t \<in> sourceId ` set ds"
      then obtain d where d: "d \<in> set ds" "sourceId t = sourceId d" by blast
      with assms(2) have "d \<in> set xs" by blast
      with inj t d(2) have "t = d" by (simp add: inj_on_def)
      with d(1) n show False by simp
    qed
  qed
qed

lemma filter_drop_1_distinct:
  assumes "distinct m"
  shows "filter (\<lambda>t. t \<notin> set (drop 1 m)) m = take 1 m"
proof (cases m)
  case Nil
  then show ?thesis by simp
next
  case (Cons x xs)
  with assms have "x \<notin> set xs" by simp
  moreover have "filter (\<lambda>t. t \<notin> set xs) xs = []" by (simp add: filter_empty_conv)
  ultimately show ?thesis using Cons by simp
qed

lemma eventSources_ensure:
  assumes "distinct (map sourceId (eventSources cal))"
  shows "eventSources (ensureSingleEventSource_cal cal) =
     filter (\<lambda>src. src \<notin> set (drop 1 (filter (\<lambda>src. url src = Some FEED_URL) (eventSources cal))))
       (eventSources cal)"
proof -
  let ?m = "filter (\<lambda>src. url src = Some FEED_URL) (eventSources cal)"
  have "set (drop 1 ?m) \<subseteq> set ?m" by (rule set_drop_subset)
  then have "set (drop 1 ?m) \<subseteq> set (eventSources cal)" by auto
  with assms show ?thesis
    by (simp add: ensureSingleEventSource_cal_fold fold_remove_source filter_ids_eq_filter_mem)
qed

lemma matching_ensure:
  assumes "distinct (map sourceId (eventSources cal))"
  shows "filter (\<lambda>src. url src = Some FEED_URL) (eventSources (ensureSingleEventSource_cal cal)) =
     take 1 (filter (\<lambda>src. url src = Some FEED_URL) (eventSources cal))"
proof -
  let ?P = "\<lambda>src. url src = Some FEED_URL"
  let ?m = "filter ?P (eventSources cal)"
  from assms have "distinct (eventSources cal)" by (rule distinct_map [THEN iffD1, THEN conjunct1])
  then have dm: "distinct ?m" by simp
  have "filter ?P (eventSources (ensureSingleEventSource_cal cal)) =
      filter (\<lambda>t. t \<notin> set (drop 1 ?m)) ?m"
    by (simp add: eventSources_ensure [OF assms] conj_commute)
  also have "\<dots> = take 1 ?m" using dm by (rule filter_drop_1_distinct)
  finally show ?thesis .
qed

lemma others_ensure:
  assumes "distinct (map sourceId (eventSources cal))"
  shows "filter (\<lambda>src. url src \<noteq> Some FEED_URL) (eventSources (ensureSingleEventSource_cal cal)) =
     filter (\<lambda>src. url src \<noteq> Some FEED_URL) (eventSources cal)"
proof -
  let ?m = "filter (\<lambda>src. url src = Some FEED_URL) (eventSources cal)"
  let ?N = "\<lambda>src. url src \<noteq> Some FEED_URL"
  let ?Q = "\<lambda>src. src \<notin> set (drop 1 ?m)"
  have h: "url t = Some FEED_URL" if "t \<in> set (drop 1 ?m)" for t
    using that set_drop_subset [of 1 ?m] by auto
  have "filter ?N (eventSources (ensureSingleEventSource_cal cal)) =
      filter ?N (filter ?Q (eventSources cal))"
    by (simp only: eventSources_ensure [OF assms])
  also have "\<dots> = filter (\<lambda>src. ?Q src \<and> ?N src) (eventSources cal)"
    by (simp only: filter_filter)
  also have "\<dots> = filter ?N (eventSources cal)"
  proof (rule filter_cong [OF refl])
    fix x assume "x \<in> set (eventSources cal)"
    show "(?Q x \<and> ?N x) = ?N x" using h [of x] by blast
  qed
  finally show ?thesis .
qed

lemma ensure_idem:
  assumes "distinct (map sourceId (eventSources cal))"
  shows "ensureSingleEventSource_cal (ensureSingleEventSource_cal cal) = ensureSingleEventSource_cal cal"
proof -
  let ?c = "ensureSingleEventSource_cal cal"
  have "drop 1 (filter (\<lambda>src. url src = Some FEED_URL) (eventSources ?c)) = []"
    by (simp add: matching_ensure [OF assms])
  then show ?thesis by (simp add: ensureSingleEventSource_cal_fold [of ?c])
qed

text \<open>
  Claim C7. The widget gives every source its own internal id. Then
  \<open>ensureSingleEventSource\<close> leaves the sources in their order, keeps of the sources whose
  \<open>url\<close> is the feed's exactly the first, removes every later one (each by one call of
  \<open>remove()\<close>, logged in \<open>removed\<close>) and keeps every other source. A second run right after
  leaves the widget as it is: nothing is removed, and no step of the function can fail.
\<close>

theorem ensureSingleEventSource_keeps_first:
  assumes "distinct (map sourceId (eventSources cal))"
  shows "filter (\<lambda>src. url src = Some FEED_URL) (eventSources (ensureSingleEventSource_cal cal))
       = take 1 (filter (\<lambda>src. url src = Some FEED_URL) (eventSources cal))
     \<and> filter (\<lambda>src. url src \<noteq> Some FEED_URL) (eventSources (ensureSingleEventSource_cal cal))
       = filter (\<lambda>src. url src \<noteq> Some FEED_URL) (eventSources cal)
     \<and> eventSources (ensureSingleEventSource_cal cal)
       = filter (\<lambda>src. src \<notin> set (drop 1 (filter (\<lambda>src. url src = Some FEED_URL) (eventSources cal))))
           (eventSources cal)
     \<and> removed (ensureSingleEventSource_cal cal)
       = removed cal @ drop 1 (filter (\<lambda>src. url src = Some FEED_URL) (eventSources cal))
     \<and> ensureSingleEventSource_cal (ensureSingleEventSource_cal cal) = ensureSingleEventSource_cal cal
     \<and> (fcCalendarInstance s = Some cal \<longrightarrow>
          ensureSingleEventSource (ensureSingleEventSource s) = ensureSingleEventSource s)"
proof -
  have r: "removed (ensureSingleEventSource_cal cal)
       = removed cal @ drop 1 (filter (\<lambda>src. url src = Some FEED_URL) (eventSources cal))"
    by (simp add: ensureSingleEventSource_cal_fold fold_remove_source)
  have p: "fcCalendarInstance s = Some cal \<longrightarrow>
          ensureSingleEventSource (ensureSingleEventSource s) = ensureSingleEventSource s"
    by (simp add: ensureSingleEventSource_def ensure_idem [OF assms])
  from matching_ensure [OF assms] others_ensure [OF assms] eventSources_ensure [OF assms] r
    ensure_idem [OF assms] p
  show ?thesis by (simp only: simp_thms)
qed

theorem ensureSingleEventSource_keeps_first_witness:
  "distinct (map sourceId (eventSources ex_calendar))
   \<and> map sourceId (eventSources ex_calendar) = [0, 1, 2, 3]
   \<and> map sourceId (filter (\<lambda>src. url src = Some FEED_URL) (eventSources ex_calendar)) = [0, 2, 3]
   \<and> map sourceId (eventSources (ensureSingleEventSource_cal ex_calendar)) = [0, 1]
   \<and> map sourceId (removed (ensureSingleEventSource_cal ex_calendar)) = [2, 3]
   \<and> ensureSingleEventSource_cal (ensureSingleEventSource_cal ex_calendar)
       = ensureSingleEventSource_cal ex_calendar
   \<and> fcCalendarInstance ex_loaded = Some ex_calendar
   \<and> ensureSingleEventSource (ensureSingleEventSource ex_loaded) = ensureSingleEventSource ex_loaded"
proof -
  have i: "map sourceId (eventSources ex_calendar) = [0, 1, 2, 3]" by code_simp
  then have d: "distinct (map sourceId (eventSources ex_calendar))" by simp
  have m: "map sourceId (filter (\<lambda>src. url src = Some FEED_URL) (eventSources ex_calendar)) = [0, 2, 3]"
    by code_simp
  have e: "map sourceId (eventSources (ensureSingleEventSource_cal ex_calendar)) = [0, 1]"
    by code_simp
  have r: "map sourceId (removed (ensureSingleEventSource_cal ex_calendar)) = [2, 3]"
    by code_simp
  have l: "fcCalendarInstance ex_loaded = Some ex_calendar" by (simp add: ex_loaded_def)
  from ensureSingleEventSource_keeps_first [OF d, of ex_loaded] l
  have "ensureSingleEventSource_cal (ensureSingleEventSource_cal ex_calendar)
       = ensureSingleEventSource_cal ex_calendar"
    and "ensureSingleEventSource (ensureSingleEventSource ex_loaded) = ensureSingleEventSource ex_loaded"
    by simp_all
  with d i m e r l show ?thesis by (simp only: simp_thms)
qed

section \<open>Properties of attach\<close>

lemma attach_instance_set:
  "fcCalendarInstance s \<noteq> None \<Longrightarrow> attach ctx s = (JUndefined, s)"
  by (simp add: attach_def)

lemma attaches_instance_set:
  "fcCalendarInstance s \<noteq> None \<Longrightarrow> attaches ctxs s = s"
  by (induction ctxs) (simp_all add: attach_instance_set)

lemma once_fc_init_length: "length (snd (once_fc_init ctx els)) = length els"
  by (simp add: once_fc_init_def)

lemma attach_many_calendars:
  assumes "length (doc_calendars s) > 1"
  shows "attach ctx s = (JUndefined, s) \<or>
         attach ctx s = (JUndefined, s\<lparr>doc_calendars := snd (once_fc_init ctx (doc_calendars s))\<rparr>)"
proof (cases "fcCalendarInstance s \<noteq> None")
  case True
  then show ?thesis by (simp add: attach_instance_set)
next
  case False
  obtain els marks where o: "once_fc_init ctx (doc_calendars s) = (els, marks)"
    by (cases "once_fc_init ctx (doc_calendars s)")
  then have "length marks = length (doc_calendars s)"
    using once_fc_init_length [of ctx "doc_calendars s"] by simp
  with assms have "length marks > 1" by simp
  with False o show ?thesis by (simp add: attach_def Let_def)
qed

text \<open>
  Claim C8, as the code has it. Once \<open>window.__fcCalendarInstance\<close> is set, every further
  \<open>attach\<close>, with any context, leaves the whole page as it is (so it constructs no widget)
  and returns \<open>undefined\<close>, the value \<open>attach\<close> returns on every path.
\<close>

theorem attach_after_first_is_noop:
  assumes "fcCalendarInstance s \<noteq> None"
  shows "attach ctx s = (JUndefined, s)
     \<and> attaches ctxs s = s
     \<and> constructed (attaches ctxs s) = constructed s"
  using assms by (simp add: attach_instance_set attaches_instance_set)

theorem attach_after_first_is_noop_witness:
  "fcCalendarInstance ex_page = None
   \<and> fcCalendarInstance ex_attached \<noteq> None
   \<and> constructed ex_attached = 1
   \<and> attach (\<lambda>i. True) ex_attached = (JUndefined, ex_attached)
   \<and> attaches [\<lambda>i. True, \<lambda>i. False, \<lambda>i. i = 0] ex_attached = ex_attached
   \<and> constructed (attaches [\<lambda>i. True, \<lambda>i. False, \<lambda>i. i = 0] ex_attached) = 1"
proof -
  have n: "fcCalendarInstance ex_page = None" by (simp add: ex_page_def)
  have h: "fcCalendarInstance ex_attached \<noteq> None" by code_simp
  have c: "constructed ex_attached = 1" by code_simp
  from attach_after_first_is_noop [OF h, of "\<lambda>i. True" "[\<lambda>i. True, \<lambda>i. False, \<lambda>i. i = 0]"]
  have a: "attach (\<lambda>i. True) ex_attached = (JUndefined, ex_attached)"
    and b: "attaches [\<lambda>i. True, \<lambda>i. False, \<lambda>i. i = 0] ex_attached = ex_attached"
    and "constructed (attaches [\<lambda>i. True, \<lambda>i. False, \<lambda>i. i = 0] ex_attached) = constructed ex_attached"
    by blast+
  with c have "constructed (attaches [\<lambda>i. True, \<lambda>i. False, \<lambda>i. i = 0] ex_attached) = 1"
    by (simp only:)
  with n h c a b show ?thesis by (simp only: simp_thms)
qed

text \<open>
  The claim as the spec states it fails on the value returned: the second \<open>attach\<close>
  returns \<open>undefined\<close>, not \<open>false\<close>.
\<close>

theorem attach_returns_false_counterexample:
  "fcCalendarInstance ex_attached \<noteq> None
   \<and> fst (attach (\<lambda>i. True) ex_attached) = JUndefined
   \<and> fst (attach (\<lambda>i. True) ex_attached) \<noteq> JBool False"
proof -
  have h: "fcCalendarInstance ex_attached \<noteq> None" by code_simp
  then have "fst (attach (\<lambda>i. True) ex_attached) = JUndefined" by (simp add: attach_instance_set)
  with h show ?thesis by simp
qed

text \<open>
  Claim C9, as the code has it. When the document has more than one element with id
  \<open>calendar\<close>, \<open>attach\<close> returns without creating a widget: the instance flag keeps its
  value (unset stays unset), no widget is constructed, the controls are untouched (no click
  handler is added), no observer is registered and the filter state is not changed. The
  one thing it leaves behind is the mark of \<open>once\<close>: unless the instance flag was set,
  every container inside the context is marked \<open>fc-init\<close> afterwards, as \<open>once\<close> runs
  before the containers are counted.
\<close>

theorem attach_aborts_on_many_calendars:
  assumes "length (doc_calendars s) > 1"
  shows "fst (attach ctx s) = JUndefined
     \<and> fcCalendarInstance (snd (attach ctx s)) = fcCalendarInstance s
     \<and> constructed (snd (attach ctx s)) = constructed s
     \<and> doc_filterEventsGroup (snd (attach ctx s)) = doc_filterEventsGroup s
     \<and> observers (snd (attach ctx s)) = observers s
     \<and> activeCategoryRaw (snd (attach ctx s)) = activeCategoryRaw s
     \<and> activeCategory (snd (attach ctx s)) = activeCategory s
     \<and> buttonsWired (snd (attach ctx s)) = buttonsWired s
     \<and> snd (attach ctx s) = s\<lparr>doc_calendars := doc_calendars (snd (attach ctx s))\<rparr>
     \<and> length (doc_calendars (snd (attach ctx s))) = length (doc_calendars s)
     \<and> doc_calendars (snd (attach ctx s))
         = (if fcCalendarInstance s = None
            then map (\<lambda>i. doc_calendars s ! i \<or> ctx i) [0..<length (doc_calendars s)]
            else doc_calendars s)"
proof -
  have m: "doc_calendars (snd (attach ctx s))
         = (if fcCalendarInstance s = None
            then map (\<lambda>i. doc_calendars s ! i \<or> ctx i) [0..<length (doc_calendars s)]
            else doc_calendars s)"
  proof (cases "fcCalendarInstance s = None")
    case True
    obtain els marks where o: "once_fc_init ctx (doc_calendars s) = (els, marks)"
      by (cases "once_fc_init ctx (doc_calendars s)")
    then have mk: "marks = map (\<lambda>i. doc_calendars s ! i \<or> ctx i) [0..<length (doc_calendars s)]"
      by (simp add: once_fc_init_def)
    with assms have "length marks > 1" by simp
    with True o have "attach ctx s = (JUndefined, s\<lparr>doc_calendars := marks\<rparr>)"
      by (simp add: attach_def Let_def)
    with True mk show ?thesis by simp
  next
    case False
    then have "attach ctx s = (JUndefined, s)" by (rule attach_instance_set)
    with False show ?thesis by auto
  qed
  from attach_many_calendars [OF assms, of ctx] once_fc_init_length [of ctx "doc_calendars s"]
  have "fst (attach ctx s) = JUndefined
     \<and> fcCalendarInstance (snd (attach ctx s)) = fcCalendarInstance s
     \<and> constructed (snd (attach ctx s)) = constructed s
     \<and> doc_filterEventsGroup (snd (attach ctx s)) = doc_filterEventsGroup s
     \<and> observers (snd (attach ctx s)) = observers s
     \<and> activeCategoryRaw (snd (attach ctx s)) = activeCategoryRaw s
     \<and> activeCategory (snd (attach ctx s)) = activeCategory s
     \<and> buttonsWired (snd (attach ctx s)) = buttonsWired s
     \<and> snd (attach ctx s) = s\<lparr>doc_calendars := doc_calendars (snd (attach ctx s))\<rparr>
     \<and> length (doc_calendars (snd (attach ctx s))) = length (doc_calendars s)"
    by auto
  with m show ?thesis by blast
qed

theorem attach_aborts_on_many_calendars_witness:
  "length (doc_calendars ex_page_two_calendars) > 1
   \<and> fcCalendarInstance ex_page_two_calendars = None
   \<and> fcCalendarInstance (snd (attach (\<lambda>i. True) ex_page_two_calendars)) = None
   \<and> constructed (snd (attach (\<lambda>i. True) ex_page_two_calendars)) = 0
   \<and> map wired (controls (snd (attach (\<lambda>i. True) ex_page_two_calendars))) = [False, False, False]
   \<and> observers (snd (attach (\<lambda>i. True) ex_page_two_calendars)) = 0
   \<and> doc_calendars (snd (attach (\<lambda>i. True) ex_page_two_calendars)) = [True, True]
   \<and> doc_calendars (snd (attach (\<lambda>i. i = 1) ex_page_two_calendars)) = [False, True]"
proof -
  let ?s = "ex_page_two_calendars"
  have h: "length (doc_calendars ?s) > 1" by code_simp
  have n: "fcCalendarInstance ?s = None" by code_simp
  have c: "constructed ?s = 0" by code_simp
  have o: "observers ?s = 0" by code_simp
  have w: "map wired (controls ?s) = [False, False, False]" by code_simp
  have d: "doc_calendars ?s = [False, False]" by code_simp
  have u: "[0..<2] = [0, Suc 0]" by (simp add: upt_rec)
  from attach_aborts_on_many_calendars [OF h, of "\<lambda>i. True"] n c o
  have "fcCalendarInstance (snd (attach (\<lambda>i. True) ?s)) = None"
    and "constructed (snd (attach (\<lambda>i. True) ?s)) = 0"
    and "observers (snd (attach (\<lambda>i. True) ?s)) = 0"
    and "doc_filterEventsGroup (snd (attach (\<lambda>i. True) ?s)) = doc_filterEventsGroup ?s"
    and "doc_calendars (snd (attach (\<lambda>i. True) ?s))
         = map (\<lambda>i. doc_calendars ?s ! i \<or> True) [0..<length (doc_calendars ?s)]"
    by simp_all
  moreover from this(4) w have "map wired (controls (snd (attach (\<lambda>i. True) ?s))) = [False, False, False]"
    by (simp add: controls_def)
  moreover from calculation(5) d have m: "doc_calendars (snd (attach (\<lambda>i. True) ?s)) = [True, True]"
    by (simp add: u)
  moreover from attach_aborts_on_many_calendars [OF h, of "\<lambda>i. i = 1"] n d
  have "doc_calendars (snd (attach (\<lambda>i. i = 1) ?s)) = [False, True]"
    by (simp add: u)
  ultimately show ?thesis using h n by (simp only: simp_thms)
qed

text \<open>
  The claim as the spec states it fails on the \<open>once\<close> marks: the abort leaves both
  containers marked, and the page is no longer the page before the call. The mark has an
  effect: once the second container is taken out of the document, \<open>attach\<close> builds no
  widget on the page that went through the abort, and builds one on the same page without
  the marks.
\<close>

theorem attach_partial_state_counterexample:
  "length (doc_calendars ex_page_two_calendars) > 1
   \<and> doc_calendars ex_page_two_calendars = [False, False]
   \<and> doc_calendars ex_aborted = [True, True]
   \<and> ex_aborted \<noteq> ex_page_two_calendars
   \<and> doc_calendars ex_duplicate_removed = [True]
   \<and> fcCalendarInstance (snd (attach (\<lambda>i. True) ex_duplicate_removed)) = None
   \<and> constructed (snd (attach (\<lambda>i. True) ex_duplicate_removed)) = 0
   \<and> constructed (snd (attach (\<lambda>i. True) (ex_duplicate_removed\<lparr>doc_calendars := [False]\<rparr>))) = 1"
proof -
  have "length (doc_calendars ex_page_two_calendars) > 1" by code_simp
  moreover have a: "doc_calendars ex_page_two_calendars = [False, False]" by code_simp
  moreover have b: "doc_calendars ex_aborted = [True, True]" by code_simp
  moreover from a b have "ex_aborted \<noteq> ex_page_two_calendars" by auto
  moreover have "doc_calendars ex_duplicate_removed = [True]" by code_simp
  moreover have "fcCalendarInstance (snd (attach (\<lambda>i. True) ex_duplicate_removed)) = None"
    by code_simp
  moreover have "constructed (snd (attach (\<lambda>i. True) ex_duplicate_removed)) = 0" by code_simp
  moreover have
    "constructed (snd (attach (\<lambda>i. True) (ex_duplicate_removed\<lparr>doc_calendars := [False]\<rparr>))) = 1"
    by code_simp
  ultimately show ?thesis by (simp only: simp_thms)
qed

section \<open>Where the active category comes from\<close>

lemma readDefaultFromMarkup_Some:
  assumes "readDefaultFromMarkup s = Some r"
  shows "r \<noteq> []" and "doc_filterEventsGroup s \<noteq> None"
  using assms
  by (auto simp add: readDefaultFromMarkup_def getFilterGroup_def or_all_nonempty
      split: option.splits)

lemma adoptFromMarkup_read:
  assumes "readDefaultFromMarkup s = Some r"
  shows "adoptFromMarkup s = s\<lparr>activeCategoryRaw := r, activeCategory := norm (JStr r)\<rparr>"
  using assms readDefaultFromMarkup_Some(1) [OF assms] by (simp add: adoptFromMarkup_def)

lemma ensureSingleEventSource_frame:
  "activeCategory (ensureSingleEventSource s) = activeCategory s"
  "doc_filterEventsGroup (ensureSingleEventSource s) = doc_filterEventsGroup s"
  by (simp_all add: ensureSingleEventSource_def split: option.splits)

lemma wireButtonsIfPresent_activeCategory:
  assumes "readDefaultFromMarkup s = Some r"
  shows "activeCategory (snd (wireButtonsIfPresent s)) =
           (if buttonsWired s then activeCategory s else norm (JStr r))"
proof -
  from readDefaultFromMarkup_Some(2) [OF assms] obtain g where "doc_filterEventsGroup s = Some g"
    by blast
  then show ?thesis
    by (simp add: wireButtonsIfPresent_def getFilterGroup_def Let_def adoptFromMarkup_read [OF assms])
qed

lemma loading_activeCategory:
  assumes "readDefaultFromMarkup s = Some r"
  shows "activeCategory (loading False s) =
           (if buttonsWired s then activeCategory s else norm (JStr r))"
  by (simp add: loading_def applyFilter_frame ensureSingleEventSource_frame
      wireButtonsIfPresent_activeCategory [OF assms])

lemma applyFilter_evCat_display: "applyFilter_evCat (ev\<lparr>display := d\<rparr>) = applyFilter_evCat ev"
  by (simp add: applyFilter_evCat_def extendedCategory_def)

lemma applyFilter_loop_display:
  "map display (applyFilter_loop A evs) =
     map (\<lambda>ev. showFlag (A = ''all'' \<or> applyFilter_evCat ev = A)) (applyFilter_loop A evs)"
  by (induction evs) (simp_all add: Let_def applyFilter_evCat_display)

lemma loading_display:
  "map display (getEvents (loading False s)) =
     map (\<lambda>ev. showFlag (activeCategory (loading False s) = ''all''
                         \<or> applyFilter_evCat ev = activeCategory (loading False s)))
       (getEvents (loading False s))"
proof -
  let ?t = "ensureSingleEventSource (snd (wireButtonsIfPresent s))"
  have l: "loading False s = applyFilter ?t" by (simp add: loading_def)
  have a: "activeCategory (applyFilter ?t) = activeCategory ?t" by (simp add: applyFilter_frame)
  show ?thesis
    unfolding l a getEvents_applyFilter by (rule applyFilter_loop_display)
qed

text \<open>
  Claim C3, as the code has it. While the document has the control group, let \<open>r\<close> be the
  value \<open>readDefaultFromMarkup\<close> reads from it. \<open>eventDataTransform\<close> stores \<open>norm(r)\<close> as
  the active category and filters its record with it. The \<open>loading\<close> callback, called with
  \<open>false\<close>, does the same for the events of the widget as long as the buttons are not wired;
  once they are wired it filters with the stored active category and does not read the
  markup.
\<close>

theorem active_category_from_markup:
  assumes "readDefaultFromMarkup s = Some r"
  shows "activeCategory (snd (eventDataTransform raw s)) = norm (JStr r)
     \<and> display (fst (eventDataTransform raw s))
         = showFlag (norm (JStr r) = ''all'' \<or> transform_evCat raw = norm (JStr r))
     \<and> (\<not> buttonsWired s \<longrightarrow>
          activeCategory (loading False s) = norm (JStr r)
          \<and> map display (getEvents (loading False s))
              = map (\<lambda>ev. showFlag (norm (JStr r) = ''all'' \<or> applyFilter_evCat ev = norm (JStr r)))
                  (getEvents (loading False s)))
     \<and> (buttonsWired s \<longrightarrow>
          activeCategory (loading False s) = activeCategory s
          \<and> map display (getEvents (loading False s))
              = map (\<lambda>ev. showFlag (activeCategory s = ''all'' \<or> applyFilter_evCat ev = activeCategory s))
                  (getEvents (loading False s)))"
proof -
  have t: "activeCategory (snd (eventDataTransform raw s)) = norm (JStr r)"
    "display (fst (eventDataTransform raw s))
         = showFlag (norm (JStr r) = ''all'' \<or> transform_evCat raw = norm (JStr r))"
    by (simp_all add: eventDataTransform_def Let_def adoptFromMarkup_read [OF assms])
  have u: "\<not> buttonsWired s \<longrightarrow>
          activeCategory (loading False s) = norm (JStr r)
          \<and> map display (getEvents (loading False s))
              = map (\<lambda>ev. showFlag (norm (JStr r) = ''all'' \<or> applyFilter_evCat ev = norm (JStr r)))
                  (getEvents (loading False s))"
  proof
    assume "\<not> buttonsWired s"
    then have "activeCategory (loading False s) = norm (JStr r)"
      by (simp add: loading_activeCategory [OF assms])
    with loading_display [of s] show "activeCategory (loading False s) = norm (JStr r)
          \<and> map display (getEvents (loading False s))
              = map (\<lambda>ev. showFlag (norm (JStr r) = ''all'' \<or> applyFilter_evCat ev = norm (JStr r)))
                  (getEvents (loading False s))"
      by simp
  qed
  have w: "buttonsWired s \<longrightarrow>
          activeCategory (loading False s) = activeCategory s
          \<and> map display (getEvents (loading False s))
              = map (\<lambda>ev. showFlag (activeCategory s = ''all'' \<or> applyFilter_evCat ev = activeCategory s))
                  (getEvents (loading False s))"
  proof
    assume "buttonsWired s"
    then have "activeCategory (loading False s) = activeCategory s"
      by (simp add: loading_activeCategory [OF assms])
    with loading_display [of s] show "activeCategory (loading False s) = activeCategory s
          \<and> map display (getEvents (loading False s))
              = map (\<lambda>ev. showFlag (activeCategory s = ''all'' \<or> applyFilter_evCat ev = activeCategory s))
                  (getEvents (loading False s))"
      by simp
  qed
  from t u w show ?thesis by (simp only: simp_thms)
qed

theorem active_category_from_markup_witness:
  "readDefaultFromMarkup ex_late_group = Some ''category-904''
   \<and> \<not> buttonsWired ex_late_group
   \<and> activeCategory ex_late_group = ''all''
   \<and> activeCategory (snd (eventDataTransform ex_event_3 ex_late_group)) = ''904''
   \<and> display (fst (eventDataTransform ex_event_3 ex_late_group)) = ''none''
   \<and> activeCategory (loading False ex_late_group) = ''904''
   \<and> map display (getEvents (loading False ex_late_group)) = [''auto'', ''none'', ''none'']"
proof -
  have r: "readDefaultFromMarkup ex_late_group = Some ''category-904''" by code_simp
  have b: "\<not> buttonsWired ex_late_group" by code_simp
  have a: "activeCategory ex_late_group = ''all''" by code_simp
  have n: "norm (JStr ''category-904'') = ''904''" by code_simp
  have k: "transform_evCat ex_event_3 = ''3''" by code_simp
  have m: "map display (getEvents (loading False ex_late_group)) = [''auto'', ''none'', ''none'']"
    by code_simp
  from active_category_from_markup [OF r, of ex_event_3] b
  have "activeCategory (snd (eventDataTransform ex_event_3 ex_late_group)) = norm (JStr ''category-904'')"
    and "display (fst (eventDataTransform ex_event_3 ex_late_group))
         = showFlag (norm (JStr ''category-904'') = ''all''
                     \<or> transform_evCat ex_event_3 = norm (JStr ''category-904''))"
    and "activeCategory (loading False ex_late_group) = norm (JStr ''category-904'')"
    by blast+
  then have "activeCategory (snd (eventDataTransform ex_event_3 ex_late_group)) = ''904''"
    and "display (fst (eventDataTransform ex_event_3 ex_late_group)) = ''none''"
    and "activeCategory (loading False ex_late_group) = ''904''"
    by (simp_all add: n k showFlag_def)
  with r b a m show ?thesis by (simp only: simp_thms)
qed

text \<open>
  The claim as the spec states it fails for the \<open>loading\<close> callback once the buttons are
  wired: on a page whose markup selects \<open>"category-3"\<close> while \<open>"904"\<close> is stored, the callback
  filters with \<open>"904"\<close> and writes that selection back into the markup.
\<close>

theorem loading_reread_counterexample:
  "buttonsWired ex_markup_moved
   \<and> readDefaultFromMarkup ex_markup_moved = Some ''category-3''
   \<and> norm (JStr ''category-3'') = ''3''
   \<and> activeCategory ex_markup_moved = ''904''
   \<and> activeCategory (loading False ex_markup_moved) = ''904''
   \<and> map display (getEvents (loading False ex_markup_moved)) = [''auto'', ''none'', ''none'']
   \<and> readDefaultFromMarkup (loading False ex_markup_moved) = Some ''category-904''"
proof -
  have "buttonsWired ex_markup_moved" by code_simp
  moreover have "readDefaultFromMarkup ex_markup_moved = Some ''category-3''" by code_simp
  moreover have "norm (JStr ''category-3'') = ''3''" by code_simp
  moreover have "activeCategory ex_markup_moved = ''904''" by code_simp
  moreover have "activeCategory (loading False ex_markup_moved) = ''904''" by code_simp
  moreover have "map display (getEvents (loading False ex_markup_moved)) = [''auto'', ''none'', ''none'']"
    by code_simp
  moreover have "readDefaultFromMarkup (loading False ex_markup_moved) = Some ''category-904''"
    by code_simp
  ultimately show ?thesis by (simp only: simp_thms)
qed

text \<open>
  Claim C2, where the code departs from it. With \<open>"904"\<close> active, a record that carries its
  category under \<open>className\<close> only is shown by \<open>eventDataTransform\<close>, which falls back to
  \<open>raw.category\<close> and \<open>raw.className\<close>, and hidden by \<open>applyFilter\<close>, which reads
  \<open>extendedProps\<close> only, both after the load and after a click.
\<close>

theorem transform_and_applyFilter_differ:
  "activeCategory ex_attached = ''904''
   \<and> transform_evCat ex_event_className = ''904''
   \<and> applyFilter_evCat ex_event_className = ''''
   \<and> display (fst (eventDataTransform ex_event_className ex_attached)) = ''auto''
   \<and> map display (getEvents ex_fetched) = [''auto'']
   \<and> activeCategory (loading False ex_fetched) = ''904''
   \<and> map display (getEvents (loading False ex_fetched)) = [''none'']
   \<and> activeCategory (click 0 ex_fetched) = ''904''
   \<and> map display (getEvents (click 0 ex_fetched)) = [''none'']"
proof -
  have "activeCategory ex_attached = ''904''" by code_simp
  moreover have "transform_evCat ex_event_className = ''904''" by code_simp
  moreover have "applyFilter_evCat ex_event_className = ''''" by code_simp
  moreover have "display (fst (eventDataTransform ex_event_className ex_attached)) = ''auto''"
    by code_simp
  moreover have "map display (getEvents ex_fetched) = [''auto'']" by code_simp
  moreover have "activeCategory (loading False ex_fetched) = ''904''" by code_simp
  moreover have "map display (getEvents (loading False ex_fetched)) = [''none'']" by code_simp
  moreover have "activeCategory (click 0 ex_fetched) = ''904''" by code_simp
  moreover have "map display (getEvents (click 0 ex_fetched)) = [''none'']" by code_simp
  ultimately show ?thesis by (simp only: simp_thms)
qed

end
